theory Spec2Isabelle
  imports Main "HOL-Library.Multiset"
begin

section \<open>The program: merge sort of \<^verbatim>\<open>src/main.py\<close>\<close>

text \<open>
  The elements of a Python list are compared with \<^verbatim>\<open><\<close>, which dispatches on the
  elements' type. The comparison is therefore a parameter \<open>lt\<close> of the model:
  \<open>lt a b\<close> is the outcome of \<^verbatim>\<open>a < b\<close>. Lists whose elements cannot be compared
  (the comparison raises) are outside the model.
\<close>

text \<open>
  The \<^verbatim>\<open>while\<close> loop of \<^verbatim>\<open>merge\<close> (lines 46 to 52), with its two read cursors
  \<open>i\<close> and \<open>j\<close> and the list \<open>result\<close> it appends to. The loop returns the state
  in which its guard fails.
\<close>

function merge_loop ::
  "('a \<Rightarrow> 'a \<Rightarrow> bool) \<Rightarrow> 'a list \<Rightarrow> 'a list \<Rightarrow> nat \<Rightarrow> nat \<Rightarrow> 'a list \<Rightarrow> nat \<times> nat \<times> 'a list"
where
  "merge_loop lt left right i j result =
     (if i < length left \<and> j < length right then
        (if lt (left ! i) (right ! j)
         then merge_loop lt left right (i + 1) j (result @ [left ! i])
         else merge_loop lt left right i (j + 1) (result @ [right ! j]))
      else (i, j, result))"
  by pat_completeness auto
termination
  by (relation "measure (\<lambda>(lt, left, right, i, j, result).
        (length left - i) + (length right - j))") auto

declare merge_loop.simps [simp del]

text \<open>
  \<^verbatim>\<open>merge(left, right)\<close>: the loop started at \<open>i = j = 0\<close> with an empty result,
  followed by the two \<^verbatim>\<open>extend\<close> calls (lines 56 and 57), which append the slices
  \<^verbatim>\<open>left[i:]\<close> and \<^verbatim>\<open>right[j:]\<close>.
\<close>

definition merge :: "('a \<Rightarrow> 'a \<Rightarrow> bool) \<Rightarrow> 'a list \<Rightarrow> 'a list \<Rightarrow> 'a list" where
  "merge lt left right =
     (case merge_loop lt left right 0 0 [] of
        (i, j, result) \<Rightarrow> (result @ drop i left) @ drop j right)"

text \<open>
  \<^verbatim>\<open>merge_sort(arr)\<close>: a list of length at most one is returned as it is; a longer
  one is cut at \<^verbatim>\<open>mid = len(arr) // 2\<close> into \<^verbatim>\<open>arr[:mid]\<close> and \<^verbatim>\<open>arr[mid:]\<close>,
  both are sorted recursively and the two results merged.
\<close>

function merge_sort :: "('a \<Rightarrow> 'a \<Rightarrow> bool) \<Rightarrow> 'a list \<Rightarrow> 'a list" where
  "merge_sort lt arr =
     (if length arr \<le> 1 then arr
      else
        (let mid = length arr div 2;
             left_half = merge_sort lt (take mid arr);
             right_half = merge_sort lt (drop mid arr)
         in merge lt left_half right_half))"
  by pat_completeness auto
termination
  by (relation "measure (\<lambda>(lt, arr). length arr)") auto

declare merge_sort.simps [simp del]

text \<open>
  The comparison of elements that are ordered by a value \<open>key x\<close> in a linear order:
  Python's integers and strings with \<open>key\<close> the identity, and also elements that
  compare equal without being the same (\<^verbatim>\<open>1\<close>, \<^verbatim>\<open>1.0\<close> and \<^verbatim>\<open>True\<close>, or objects
  whose \<^verbatim>\<open>__lt__\<close> looks at one field), for which \<open>key\<close> is the value compared.
  Two elements are equal-valued when their keys are equal.
\<close>

definition key_lt :: "('a \<Rightarrow> 'k::linorder) \<Rightarrow> 'a \<Rightarrow> 'a \<Rightarrow> bool" where
  "key_lt key a b = (key a < key b)"

text \<open>
  A proof device, not a function of the source: what the loop of \<^verbatim>\<open>merge\<close> computes,
  as a recursion on the two unread suffixes \<^verbatim>\<open>left[i:]\<close> and \<^verbatim>\<open>right[j:]\<close>. Lemma
  \<open>merge_eq_merge_rec\<close> below proves that \<open>merge\<close> is this function.
\<close>

fun merge_rec :: "('a \<Rightarrow> 'a \<Rightarrow> bool) \<Rightarrow> 'a list \<Rightarrow> 'a list \<Rightarrow> 'a list" where
  "merge_rec lt (a # as) (b # bs) =
     (if lt a b then a # merge_rec lt as (b # bs) else b # merge_rec lt (a # as) bs)"
| "merge_rec lt [] bs = bs"
| "merge_rec lt as [] = as"

text \<open>
  An input type for the examples: elements that carry a sort key and a tag and are
  compared by the key alone, as objects of a Python class whose \<^verbatim>\<open>__lt__\<close> is
  \<^verbatim>\<open>self.key < other.key\<close> and which defines no \<^verbatim>\<open>__eq__\<close>. Two such elements with the
  same key are equal-valued and still told apart by their tags. (A Python tuple is
  not such an element: tuples are compared component by component.)
\<close>

datatype item = Item (item_key: int) (item_tag: string)

section \<open>The loop of \<^verbatim>\<open>merge\<close> and the recursion on the unread suffixes\<close>

text \<open>
  Loop invariant: from any state \<open>(i, j, result)\<close>, what \<^verbatim>\<open>merge\<close> returns is
  \<open>result\<close> followed by the merge of the two unread suffixes.
\<close>

lemma merge_loop_unread:
  "(case merge_loop lt left right i j result of
      (i', j', res) \<Rightarrow> (res @ drop i' left) @ drop j' right)
   = result @ merge_rec lt (drop i left) (drop j right)"
proof (induction lt left right i j result rule: merge_loop.induct)
  case (1 lt left right i j result)
  show ?case
  proof (cases "i < length left \<and> j < length right")
    case False
    then have "drop i left = [] \<or> drop j right = []" by auto
    then have "merge_rec lt (drop i left) (drop j right) = drop i left @ drop j right"
      by (cases "drop i left") auto
    moreover from False have "merge_loop lt left right i j result = (i, j, result)"
      by (subst merge_loop.simps) (simp only: if_False)
    ultimately show ?thesis by simp
  next
    case inside: True
    then have dl: "drop i left = left ! i # drop (Suc i) left"
      and dr: "drop j right = right ! j # drop (Suc j) right"
      by (simp_all add: Cons_nth_drop_Suc)
    show ?thesis
    proof (cases "lt (left ! i) (right ! j)")
      case True
      with inside 1(1) have "(case merge_loop lt left right (i + 1) j (result @ [left ! i]) of
          (i', j', res) \<Rightarrow> (res @ drop i' left) @ drop j' right)
        = (result @ [left ! i]) @ merge_rec lt (drop (i + 1) left) (drop j right)" by simp
      with inside True show ?thesis
        by (simp add: merge_loop.simps [of lt left right i j result] dl dr [symmetric])
          (simp add: dr)
    next
      case False
      with inside 1(2) have "(case merge_loop lt left right i (j + 1) (result @ [right ! j]) of
          (i', j', res) \<Rightarrow> (res @ drop i' left) @ drop j' right)
        = (result @ [right ! j]) @ merge_rec lt (drop i left) (drop (j + 1) right)" by simp
      with inside False show ?thesis
        by (simp add: merge_loop.simps [of lt left right i j result] dr dl [symmetric])
          (simp add: dl)
    qed
  qed
qed

lemma merge_eq_merge_rec: "merge lt left right = merge_rec lt left right"
  using merge_loop_unread [of left right lt 0 0 "[]"] by (simp add: merge_def)

lemma merge_loop_exit:
  "\<not> (i < length left \<and> j < length right) \<Longrightarrow>
   merge_loop lt left right i j result = (i, j, result)"
  by (subst merge_loop.simps) (simp only: if_False)

lemma merge_loop_take_right:
  "i < length left \<Longrightarrow> j < length right \<Longrightarrow> \<not> lt (left ! i) (right ! j) \<Longrightarrow>
   merge_loop lt left right i j result
   = merge_loop lt left right i (j + 1) (result @ [right ! j])"
  by (subst merge_loop.simps) simp

section \<open>Properties of \<^verbatim>\<open>merge\<close>\<close>

lemma mset_merge_rec: "mset (merge_rec lt as bs) = mset as + mset bs"
  by (induction lt as bs rule: merge_rec.induct) simp_all

lemma set_merge_rec: "set (merge_rec lt as bs) = set as \<union> set bs"
  using mset_merge_rec [of lt as bs] by (metis set_mset_mset set_mset_union)

lemma length_merge_rec: "length (merge_rec lt as bs) = length as + length bs"
  using mset_merge_rec [of lt as bs] by (metis size_mset size_union)

lemma sorted_merge_rec:
  "sorted (map key as) \<Longrightarrow> sorted (map key bs) \<Longrightarrow>
   sorted (map key (merge_rec (key_lt key) as bs))"
proof (induction "key_lt key" as bs rule: merge_rec.induct)
  case (1 a as b bs)
  then show ?case
    by (auto simp: set_merge_rec key_lt_def)
qed simp_all

text \<open>
  With a sorted right input, the elements of one key come out of the merge with those
  of the right input first: the left element is taken only when it is strictly smaller.
\<close>

lemma filter_merge_rec:
  "sorted (map key bs) \<Longrightarrow>
   filter (\<lambda>x. key x = k) (merge_rec (key_lt key) as bs)
   = filter (\<lambda>x. key x = k) bs @ filter (\<lambda>x. key x = k) as"
proof (induction "key_lt key" as bs rule: merge_rec.induct)
  case (1 a as b bs)
  show ?case
  proof (cases "key a < key b")
    case True
    have "filter (\<lambda>x. key x = k) (b # bs) = []" if "key a = k"
      using that True 1(3) by (auto simp: filter_empty_conv)
    with True 1(1) 1(3) show ?thesis
      by (simp add: key_lt_def)
  next
    case False
    with 1(2) 1(3) show ?thesis by (simp add: key_lt_def)
  qed
qed simp_all

section \<open>Properties of \<^verbatim>\<open>merge_sort\<close>\<close>

lemma merge_sort_unfold:
  "1 < length arr \<Longrightarrow>
   merge_sort lt arr =
     merge lt (merge_sort lt (take (length arr div 2) arr))
              (merge_sort lt (drop (length arr div 2) arr))"
  by (subst merge_sort.simps) (simp add: Let_def)

lemma merge_sort_base: "length arr \<le> 1 \<Longrightarrow> merge_sort lt arr = arr"
  by (subst merge_sort.simps) simp

lemma mset_merge_sort: "mset (merge_sort lt arr) = mset arr"
proof (induction lt arr rule: merge_sort.induct)
  case (1 lt arr)
  show ?case
  proof (cases "length arr \<le> 1")
    case True
    then show ?thesis by (simp add: merge_sort_base)
  next
    case False
    let ?mid = "length arr div 2"
    from False have "mset (merge_sort lt (take ?mid arr)) = mset (take ?mid arr)"
      and "mset (merge_sort lt (drop ?mid arr)) = mset (drop ?mid arr)"
      using 1 by simp_all
    moreover have "mset (take ?mid arr) + mset (drop ?mid arr) = mset arr"
      by (metis append_take_drop_id mset_append)
    ultimately show ?thesis using False
      by (simp add: merge_sort_unfold merge_eq_merge_rec mset_merge_rec)
  qed
qed

lemma sorted_merge_sort: "sorted (map key (merge_sort (key_lt key) arr))"
proof (induction "key_lt key" arr rule: merge_sort.induct)
  case (1 arr)
  show ?case
  proof (cases "length arr \<le> 1")
    case True
    then have "length (map key arr) \<le> 1" by simp
    then have "sorted (map key arr)" by (metis sorted01)
    with True show ?thesis by (simp add: merge_sort_base)
  next
    case False
    with 1 show ?thesis
      by (simp add: merge_sort_unfold merge_eq_merge_rec sorted_merge_rec)
  qed
qed

text \<open>
  Each merge puts the right half's elements of a key before the left half's, so the
  elements of one key leave \<^verbatim>\<open>merge_sort\<close> in the reverse of their input order.
\<close>

lemma filter_merge_sort:
  "filter (\<lambda>x. key x = k) (merge_sort (key_lt key) arr) = rev (filter (\<lambda>x. key x = k) arr)"
proof (induction "key_lt key" arr rule: merge_sort.induct)
  case (1 arr)
  show ?case
  proof (cases "length arr \<le> 1")
    case True
    then have "length (filter (\<lambda>x. key x = k) arr) \<le> 1"
      using length_filter_le [of "\<lambda>x. key x = k" arr] by linarith
    then have "rev (filter (\<lambda>x. key x = k) arr) = filter (\<lambda>x. key x = k) arr"
      by (cases "filter (\<lambda>x. key x = k) arr") auto
    with True show ?thesis by (simp add: merge_sort_base)
  next
    case False
    let ?mid = "length arr div 2"
    have "rev (filter (\<lambda>x. key x = k) arr)
        = rev (filter (\<lambda>x. key x = k) (take ?mid arr @ drop ?mid arr))" by simp
    also have "\<dots> = rev (filter (\<lambda>x. key x = k) (drop ?mid arr))
        @ rev (filter (\<lambda>x. key x = k) (take ?mid arr))"
      by (simp only: filter_append rev_append)
    finally show ?thesis using False 1
      by (simp add: merge_sort_unfold merge_eq_merge_rec filter_merge_rec sorted_merge_sort)
  qed
qed

lemma set_merge_sort: "set (merge_sort lt arr) = set arr"
  using mset_merge_sort [of lt arr] by (rule mset_eq_setD)

text \<open>The keys of the output are the keys of the input in ascending order.\<close>

lemma keys_merge_sort: "map key (merge_sort (key_lt key) arr) = sort (map key arr)"
proof -
  have "mset (map key (merge_sort (key_lt key) arr)) = mset (map key arr)"
    by (simp add: mset_merge_sort)
  then have "sort (map key arr) = map key (merge_sort (key_lt key) arr)"
    using sorted_merge_sort [of key arr] by (rule properties_for_sort)
  then show ?thesis by (rule sym)
qed

text \<open>
  Both recursions are well-founded: every call is in the accessible part of the
  call relation, by the measures of the two termination proofs.
\<close>

lemma merge_sort_total:
  "All (merge_sort_dom :: ('a \<Rightarrow> 'a \<Rightarrow> bool) \<times> 'a list \<Rightarrow> bool)"
  by (relation "measure (\<lambda>(lt, arr). length arr)") auto

lemma merge_loop_total:
  "All (merge_loop_dom ::
     ('a \<Rightarrow> 'a \<Rightarrow> bool) \<times> 'a list \<times> 'a list \<times> nat \<times> nat \<times> 'a list \<Rightarrow> bool)"
  by (relation "measure (\<lambda>(lt, left, right, i, j, result).
        (length left - i) + (length right - j))") auto

section \<open>Runs on concrete inputs\<close>

text \<open>The two scenarios of the specification, on integers compared by their value.\<close>

lemma merge_sort_5_3_8_1:
  "merge_sort (key_lt (\<lambda>x. x)) [5, 3, 8, 1 :: int] = [1, 3, 5, 8]"
  by (simp add: merge_sort.simps merge_eq_merge_rec key_lt_def Let_def)

lemma merge_sort_4_4_2:
  "merge_sort (key_lt (\<lambda>x. x)) [4, 4, 2 :: int] = [2, 4, 4]"
  by (simp add: merge_sort.simps merge_eq_merge_rec key_lt_def Let_def)

lemma merge_1_4_9_with_2_4_7:
  "merge (key_lt (\<lambda>x. x)) [1, 4, 9 :: int] [2, 4, 7] = [1, 2, 4, 4, 7, 9]"
  by (simp add: merge_def merge_loop.simps key_lt_def)

text \<open>Two elements of key 1, tagged \<open>a\<close> and \<open>b\<close>: the loop takes the right one.\<close>

lemma merge_loop_tie:
  "merge_loop (key_lt item_key) [Item 1 ''a''] [Item 1 ''b''] 0 0 [] = (0, 1, [Item 1 ''b''])"
  by (simp add: merge_loop.simps key_lt_def)

lemma merge_tie:
  "merge (key_lt item_key) [Item 1 ''a''] [Item 1 ''b''] = [Item 1 ''b'', Item 1 ''a'']"
  by (simp add: merge_def merge_loop_tie)

lemma merge_sort_tie:
  "merge_sort (key_lt item_key) [Item 1 ''a'', Item 1 ''b''] = [Item 1 ''b'', Item 1 ''a'']"
  by (simp add: merge_sort.simps [of _ "[Item 1 ''a'', Item 1 ''b'']"] merge_sort_base
      merge_tie Let_def)

lemma merge_sort_tie_again:
  "merge_sort (key_lt item_key) [Item 1 ''b'', Item 1 ''a''] = [Item 1 ''a'', Item 1 ''b'']"
  by (simp add: merge_sort.simps merge_eq_merge_rec key_lt_def Let_def)

lemma merge_sort_items:
  "merge_sort (key_lt item_key) [Item 2 ''a'', Item 1 ''b'', Item 2 ''c'', Item 1 ''d'']
   = [Item 1 ''d'', Item 1 ''b'', Item 2 ''c'', Item 2 ''a'']"
  by (simp add: merge_sort.simps merge_eq_merge_rec key_lt_def Let_def)

section \<open>The claims of the specification\<close>

text \<open>
  Claim C9. An empty input is an identity for \<^verbatim>\<open>merge\<close>: \<^verbatim>\<open>merge([], B) == B\<close> for every
  list \<open>B\<close>, sorted or not, and \<^verbatim>\<open>merge(A, []) == A\<close> for every list \<open>A\<close>, whatever the
  comparison.
\<close>

theorem merge_empty_identity: "merge lt [] B = B \<and> merge lt A [] = A"
  by (simp add: merge_def merge_loop_exit)

text \<open>
  Claim C10. \<^verbatim>\<open>merge\<close> keeps the multiset of elements whether or not its inputs are
  sorted: for all lists \<open>left\<close> and \<open>right\<close> and every comparison, the result is a
  permutation of \<open>left\<close> followed by \<open>right\<close> and its length is the sum of the two
  lengths. Nothing is lost or duplicated.
\<close>

theorem merge_keeps_elements:
  "mset (merge lt left right) = mset (left @ right) \<and>
   length (merge lt left right) = length left + length right"
  by (simp add: merge_eq_merge_rec mset_merge_rec length_merge_rec)

text \<open>
  Claim C6. The boundary cases: \<^verbatim>\<open>merge_sort([])\<close> is \<open>[]\<close> and \<^verbatim>\<open>merge_sort([x])\<close> is
  \<open>[x]\<close> for every element \<open>x\<close>; the input is returned as it is.
\<close>

theorem merge_sort_boundary: "merge_sort lt [] = [] \<and> merge_sort lt [x] = [x]"
  by (simp add: merge_sort_base)

text \<open>
  Claim C3. For every list \<open>S\<close>, \<^verbatim>\<open>merge_sort(S)\<close> has the same multiset of elements as
  \<open>S\<close> (it is a permutation of \<open>S\<close>), and so the same length.
\<close>

theorem merge_sort_permutation:
  "mset (merge_sort lt S) = mset S \<and> length (merge_sort lt S) = length S"
proof
  show "mset (merge_sort lt S) = mset S" by (rule mset_merge_sort)
  then show "length (merge_sort lt S) = length S" by (rule mset_eq_length)
qed

text \<open>
  Claim C4. Merge correctness: for all lists \<open>A\<close> and \<open>B\<close> that are sorted
  (non-decreasing in the value compared), \<^verbatim>\<open>merge(A, B)\<close> is sorted, its length is
  \<^verbatim>\<open>len(A) + len(B)\<close>, and it is a permutation of \<open>A\<close> followed by \<open>B\<close>.
\<close>

theorem merge_correct:
  assumes "sorted (map key A)" and "sorted (map key B)"
  shows "sorted (map key (merge (key_lt key) A B)) \<and>
         length (merge (key_lt key) A B) = length A + length B \<and>
         mset (merge (key_lt key) A B) = mset (A @ B)"
  using assms
  by (simp add: merge_eq_merge_rec sorted_merge_rec length_merge_rec mset_merge_rec)

text \<open>The theorem at \<open>A = [1, 4, 9]\<close> and \<open>B = [2, 4, 7]\<close>, integers compared by value.\<close>

theorem merge_correct_witness:
  "sorted (map (\<lambda>x. x) [1, 4, 9 :: int]) \<and> sorted (map (\<lambda>x. x) [2, 4, 7 :: int]) \<and>
   sorted (map (\<lambda>x. x) (merge (key_lt (\<lambda>x. x)) [1, 4, 9 :: int] [2, 4, 7])) \<and>
   length (merge (key_lt (\<lambda>x. x)) [1, 4, 9 :: int] [2, 4, 7])
     = length [1, 4, 9 :: int] + length [2, 4, 7 :: int] \<and>
   mset (merge (key_lt (\<lambda>x. x)) [1, 4, 9 :: int] [2, 4, 7]) = mset ([1, 4, 9] @ [2, 4, 7])"
proof -
  have a: "sorted (map (\<lambda>x. x) [1, 4, 9 :: int])"
    and b: "sorted (map (\<lambda>x. x) [2, 4, 7 :: int])"
    by simp_all
  from merge_correct [OF a b] a b show ?thesis by blast
qed

text \<open>
  Claim C2. Sortedness: for every list \<open>S\<close> of elements compared by their value,
  \<^verbatim>\<open>merge_sort(S)\<close> is non-decreasing: at every pair of adjacent positions \<open>i\<close> and
  \<open>i + 1\<close> of the output, the element at \<open>i\<close> is less than or equal to the one at
  \<open>i + 1\<close>.
\<close>

theorem merge_sort_sorted:
  "sorted (map key (merge_sort (key_lt key) S)) \<and>
   (\<forall>i. i + 1 < length (merge_sort (key_lt key) S) \<longrightarrow>
        key (merge_sort (key_lt key) S ! i) \<le> key (merge_sort (key_lt key) S ! (i + 1)))"
proof -
  let ?out = "merge_sort (key_lt key) S"
  have s: "sorted (map key ?out)" by (rule sorted_merge_sort)
  have "key (?out ! i) \<le> key (?out ! (i + 1))" if "i + 1 < length ?out" for i
  proof -
    from that have "map key ?out ! i \<le> map key ?out ! (i + 1)"
      using s by (intro sorted_nth_mono) simp_all
    with that show ?thesis by simp
  qed
  with s show ?thesis by blast
qed

text \<open>The theorem at \<open>S = [5, 3, 8, 1]\<close> and the first two positions of the output.\<close>

theorem merge_sort_sorted_witness:
  "0 + 1 < length (merge_sort (key_lt (\<lambda>x. x)) [5, 3, 8, 1 :: int]) \<and>
   merge_sort (key_lt (\<lambda>x. x)) [5, 3, 8, 1 :: int] ! 0
     \<le> merge_sort (key_lt (\<lambda>x. x)) [5, 3, 8, 1 :: int] ! (0 + 1) \<and>
   sorted (map (\<lambda>x. x) (merge_sort (key_lt (\<lambda>x. x)) [5, 3, 8, 1 :: int]))"
proof -
  have len: "0 + 1 < length (merge_sort (key_lt (\<lambda>x. x)) [5, 3, 8, 1 :: int])"
    by (simp add: merge_sort_5_3_8_1)
  from merge_sort_sorted [of "\<lambda>x. x" "[5, 3, 8, 1 :: int]"] len show ?thesis by blast
qed

text \<open>
  Claim C8. Termination: \<^verbatim>\<open>merge_sort\<close> terminates on every list. Every call
  \<open>(lt, arr)\<close> lies in the accessible part of the relation between a call and its
  recursive calls, and so does every state of the loop of \<^verbatim>\<open>merge\<close>; a list longer
  than one element is cut into two strictly shorter lists, and a list of length 0 or 1
  is returned with no further call.
\<close>

theorem merge_sort_terminates:
  "merge_sort_dom (lt, arr) \<and> merge_loop_dom (lt, left, right, i, j, result) \<and>
   (1 < length arr \<longrightarrow>
      length (take (length arr div 2) arr) < length arr \<and>
      length (drop (length arr div 2) arr) < length arr) \<and>
   (length arr \<le> 1 \<longrightarrow> merge_sort lt arr = arr)"
proof -
  have "merge_sort_dom (lt, arr)"
    using merge_sort_total by blast
  moreover have "merge_loop_dom (lt, left, right, i, j, result)"
    using merge_loop_total by blast
  moreover have "length (take (length arr div 2) arr) < length arr"
    and "length (drop (length arr div 2) arr) < length arr" if "1 < length arr"
    using that by simp_all
  ultimately show ?thesis by (simp add: merge_sort_base)
qed

text \<open>
  The theorem at \<open>arr = [5, 3, 8, 1]\<close>, which is cut into two lists of length 2, and at
  the one-element list \<open>[8]\<close>, a base case.
\<close>

theorem merge_sort_terminates_witness:
  "merge_sort_dom (key_lt (\<lambda>x. x), [5, 3, 8, 1 :: int]) \<and>
   1 < length [5, 3, 8, 1 :: int] \<and>
   length (take (length [5, 3, 8, 1 :: int] div 2) [5, 3, 8, 1 :: int])
     < length [5, 3, 8, 1 :: int] \<and>
   length (drop (length [5, 3, 8, 1 :: int] div 2) [5, 3, 8, 1 :: int])
     < length [5, 3, 8, 1 :: int] \<and>
   length [8 :: int] \<le> 1 \<and> merge_sort (key_lt (\<lambda>x. x)) [8 :: int] = [8]"
  using merge_sort_terminates [of "key_lt (\<lambda>x. x)" "[5, 3, 8, 1 :: int]"]
    merge_sort_terminates [of "key_lt (\<lambda>x. x)" "[8 :: int]"]
  by simp

text \<open>
  Claim C1, amended. \<^verbatim>\<open>merge\<close> resolves a tie by taking the right element first:
  the test \<^verbatim>\<open>left[i] < right[j]\<close> is strict, so when the two elements under the
  cursors are equal-valued the loop appends \<^verbatim>\<open>right[j]\<close> and advances \<open>j\<close>.
  Consequently \<^verbatim>\<open>merge_sort\<close> is not stable: for every input list and every value
  \<open>k\<close>, the elements of value \<open>k\<close> appear in the output in the reverse of their
  relative input order.
\<close>

theorem merge_sort_reverses_ties:
  "(i < length left \<and> j < length right \<and> key (left ! i) = key (right ! j) \<longrightarrow>
      merge_loop (key_lt key) left right i j result
      = merge_loop (key_lt key) left right i (j + 1) (result @ [right ! j]))
   \<and> filter (\<lambda>x. key x = k) (merge_sort (key_lt key) arr)
     = rev (filter (\<lambda>x. key x = k) arr)"
  by (simp add: merge_loop_take_right key_lt_def filter_merge_sort)

text \<open>
  The theorem at the loop's first state on \<open>[Item 1 a]\<close> and \<open>[Item 1 b]\<close>, and at a
  list of four elements, two of them of key 1.
\<close>

theorem merge_sort_reverses_ties_witness:
  "(0 < length [Item 1 ''a''] \<and> 0 < length [Item 1 ''b''] \<and>
    item_key ([Item 1 ''a''] ! 0) = item_key ([Item 1 ''b''] ! 0)) \<and>
   merge_loop (key_lt item_key) [Item 1 ''a''] [Item 1 ''b''] 0 0 []
   = merge_loop (key_lt item_key) [Item 1 ''a''] [Item 1 ''b''] 0 (0 + 1)
       ([] @ [[Item 1 ''b''] ! 0]) \<and>
   filter (\<lambda>x. item_key x = 1)
     (merge_sort (key_lt item_key) [Item 2 ''a'', Item 1 ''b'', Item 2 ''c'', Item 1 ''d''])
   = rev (filter (\<lambda>x. item_key x = 1)
       [Item 2 ''a'', Item 1 ''b'', Item 2 ''c'', Item 1 ''d''])"
  using merge_sort_reverses_ties [where key = item_key and left = "[Item 1 ''a'']"
      and right = "[Item 1 ''b'']" and i = 0 and j = 0 and result = "[]" and k = 1
      and arr = "[Item 2 ''a'', Item 1 ''b'', Item 2 ''c'', Item 1 ''d'']"]
  by simp

text \<open>
  Stability as the specification words it (the left element first on a tie, the input
  order of equal-valued elements preserved) fails on two elements of key 1: \<open>a\<close> comes
  before \<open>b\<close> in the input, and both \<^verbatim>\<open>merge\<close> and \<^verbatim>\<open>merge_sort\<close> put \<open>b\<close> before
  \<open>a\<close>.
\<close>

theorem merge_sort_not_stable:
  "merge (key_lt item_key) [Item 1 ''a''] [Item 1 ''b''] = [Item 1 ''b'', Item 1 ''a''] \<and>
   merge_sort (key_lt item_key) [Item 1 ''a'', Item 1 ''b''] = [Item 1 ''b'', Item 1 ''a'']"
  by (simp add: merge_tie merge_sort_tie)

text \<open>
  Claim C5, amended. For every list \<open>S\<close>, \<^verbatim>\<open>merge_sort(merge_sort(S))\<close> and
  \<^verbatim>\<open>merge_sort(S)\<close> hold equal-valued elements at every position, and they are the
  same list when no two different elements of \<open>S\<close> are equal-valued (as for integers
  and strings). When \<open>S\<close> holds different elements that compare equal, the second
  pass reverses each group of them again: for every value \<open>k\<close>, the elements of value
  \<open>k\<close> appear in \<^verbatim>\<open>merge_sort(merge_sort(S))\<close> in the reverse of their order in
  \<^verbatim>\<open>merge_sort(S)\<close>.
\<close>

theorem merge_sort_idempotent_on_values:
  "map key (merge_sort (key_lt key) (merge_sort (key_lt key) S))
   = map key (merge_sort (key_lt key) S) \<and>
   (inj_on key (set S) \<longrightarrow>
      merge_sort (key_lt key) (merge_sort (key_lt key) S) = merge_sort (key_lt key) S) \<and>
   filter (\<lambda>x. key x = k) (merge_sort (key_lt key) (merge_sort (key_lt key) S))
   = rev (filter (\<lambda>x. key x = k) (merge_sort (key_lt key) S))"
proof -
  let ?once = "merge_sort (key_lt key) S"
  let ?twice = "merge_sort (key_lt key) ?once"
  have keys: "map key ?twice = map key ?once"
    by (simp add: keys_merge_sort sorted_sort_id)
  have same: "?twice = ?once" if "inj_on key (set S)"
  proof -
    have "set ?twice \<union> set ?once = set S" by (simp add: set_merge_sort)
    with that keys show ?thesis by (metis map_inj_on)
  qed
  have again: "filter (\<lambda>x. key x = k) ?twice = rev (filter (\<lambda>x. key x = k) ?once)"
    by (rule filter_merge_sort)
  from keys same again show ?thesis by blast
qed

text \<open>
  The theorem at \<open>S = [5, 3, 8, 1]\<close>, integers compared by value, where the two passes
  agree, and at a list of four elements with two ties, where the first pass leaves the
  elements of key 1 as \<open>[d, b]\<close> and the second pass as \<open>[b, d]\<close>.
\<close>

theorem merge_sort_idempotent_on_values_witness:
  "inj_on (\<lambda>x. x) (set [5, 3, 8, 1 :: int]) \<and>
   merge_sort (key_lt (\<lambda>x. x)) (merge_sort (key_lt (\<lambda>x. x)) [5, 3, 8, 1 :: int])
   = merge_sort (key_lt (\<lambda>x. x)) [5, 3, 8, 1 :: int] \<and>
   map (\<lambda>x. x) (merge_sort (key_lt (\<lambda>x. x)) (merge_sort (key_lt (\<lambda>x. x)) [5, 3, 8, 1 :: int]))
   = map (\<lambda>x. x) (merge_sort (key_lt (\<lambda>x. x)) [5, 3, 8, 1 :: int]) \<and>
   filter (\<lambda>x. item_key x = 1)
     (merge_sort (key_lt item_key)
        [Item 2 ''a'', Item 1 ''b'', Item 2 ''c'', Item 1 ''d''])
   = [Item 1 ''d'', Item 1 ''b''] \<and>
   filter (\<lambda>x. item_key x = 1)
     (merge_sort (key_lt item_key)
        (merge_sort (key_lt item_key)
           [Item 2 ''a'', Item 1 ''b'', Item 2 ''c'', Item 1 ''d'']))
   = rev (filter (\<lambda>x. item_key x = 1)
       (merge_sort (key_lt item_key)
          [Item 2 ''a'', Item 1 ''b'', Item 2 ''c'', Item 1 ''d''])) \<and>
   filter (\<lambda>x. item_key x = 1)
     (merge_sort (key_lt item_key)
        (merge_sort (key_lt item_key)
           [Item 2 ''a'', Item 1 ''b'', Item 2 ''c'', Item 1 ''d'']))
   = [Item 1 ''b'', Item 1 ''d'']"
proof -
  have inj: "inj_on (\<lambda>x. x) (set [5, 3, 8, 1 :: int])" by simp
  have once: "filter (\<lambda>x. item_key x = 1)
      (merge_sort (key_lt item_key)
         [Item 2 ''a'', Item 1 ''b'', Item 2 ''c'', Item 1 ''d''])
    = [Item 1 ''d'', Item 1 ''b'']"
    by (simp add: merge_sort_items)
  have twice: "filter (\<lambda>x. item_key x = 1)
      (merge_sort (key_lt item_key)
         (merge_sort (key_lt item_key)
            [Item 2 ''a'', Item 1 ''b'', Item 2 ''c'', Item 1 ''d'']))
    = rev (filter (\<lambda>x. item_key x = 1)
        (merge_sort (key_lt item_key)
           [Item 2 ''a'', Item 1 ''b'', Item 2 ''c'', Item 1 ''d'']))"
    using merge_sort_idempotent_on_values [of item_key
        "[Item 2 ''a'', Item 1 ''b'', Item 2 ''c'', Item 1 ''d'']" 1]
    by blast
  have flipped: "rev (filter (\<lambda>x. item_key x = 1)
        (merge_sort (key_lt item_key)
           [Item 2 ''a'', Item 1 ''b'', Item 2 ''c'', Item 1 ''d'']))
    = [Item 1 ''b'', Item 1 ''d'']"
    by (simp only: once rev.simps append.simps)
  from merge_sort_idempotent_on_values [of "\<lambda>x. x" "[5, 3, 8, 1 :: int]"] inj
  have ints: "merge_sort (key_lt (\<lambda>x. x)) (merge_sort (key_lt (\<lambda>x. x)) [5, 3, 8, 1 :: int])
      = merge_sort (key_lt (\<lambda>x. x)) [5, 3, 8, 1 :: int]"
    and keys: "map (\<lambda>x. x)
        (merge_sort (key_lt (\<lambda>x. x)) (merge_sort (key_lt (\<lambda>x. x)) [5, 3, 8, 1 :: int]))
      = map (\<lambda>x. x) (merge_sort (key_lt (\<lambda>x. x)) [5, 3, 8, 1 :: int])"
    by blast+
  from inj ints keys once twice flipped show ?thesis by (simp only: simp_thms)
qed

text \<open>
  Idempotence on every list fails on two elements of key 1: the first pass turns
  \<open>[a, b]\<close> into \<open>[b, a]\<close> and the second pass turns it back into \<open>[a, b]\<close>.
\<close>

theorem merge_sort_twice_differs:
  "merge_sort (key_lt item_key) [Item 1 ''a'', Item 1 ''b''] = [Item 1 ''b'', Item 1 ''a''] \<and>
   merge_sort (key_lt item_key) (merge_sort (key_lt item_key) [Item 1 ''a'', Item 1 ''b''])
   = [Item 1 ''a'', Item 1 ''b''] \<and>
   merge_sort (key_lt item_key) (merge_sort (key_lt item_key) [Item 1 ''a'', Item 1 ''b''])
   \<noteq> merge_sort (key_lt item_key) [Item 1 ''a'', Item 1 ''b'']"
  by (simp add: merge_sort_tie merge_sort_tie_again)

end
